theory Spec2Isabelle
  imports Main "HOL-Library.Word" "HOL-Library.Multiset" "HOL-Library.List_Lexorder"
begin

unbundle bit_operations_syntax

section \<open>Data model of omniledger/service/transaction.go\<close>

subsection \<open>Bytes, fixed arrays and strings\<close>

type_synonym byte = "8 word"
type_synonym bytes = "byte list"

text \<open>
  Go's \<open>[32]byte\<close>: the type under \<open>Nonce\<close> and the result type of
  \<open>sha256.Sum256\<close>. \<open>slice32 a\<close> is the slice \<open>a[:]\<close>.
\<close>

typedef array32 = "{bs :: 8 word list. length bs = 32}"
  morphisms slice32 Abs_array32
  by (rule exI[of _ "replicate 32 0"]) simp

text \<open>The zero value of a \<open>[32]byte\<close> (\<open>var iid Nonce\<close>, \<open>make([]byte, 32)\<close>).\<close>

definition zero32 :: array32 where
  "zero32 = Abs_array32 (replicate 32 0)"

text \<open>
  Go's builtin \<open>copy(dst[:], src)\<close> into a \<open>[32]byte\<close>: the first
  \<open>min 32 (len src)\<close> bytes of \<open>src\<close> overwrite the front of \<open>dst\<close>.
\<close>

definition copy32 :: "array32 \<Rightarrow> bytes \<Rightarrow> array32" where
  "copy32 dst src = Abs_array32 (take 32 src @ drop (length src) (slice32 dst))"

text \<open>Go's \<open>[]byte(s)\<close> for a string \<open>s\<close>: a Go string is its bytes.\<close>

definition bytes_of_string :: "string \<Rightarrow> bytes" where
  "bytes_of_string s = map of_char s"

text \<open>\<open>binary.LittleEndian.PutUint32(b, v)\<close> on a four-byte buffer.\<close>

definition PutUint32 :: "32 word \<Rightarrow> bytes" where
  "PutUint32 v = [ucast v, ucast (drop_bit 8 v), ucast (drop_bit 16 v), ucast (drop_bit 24 v)]"

subsection \<open>The running hash of crypto/sha256\<close>

text \<open>
  SHA-256 itself belongs to the Go standard library; it is the parameter
  \<open>sha :: bytes \<Rightarrow> array32\<close> of every function that hashes (\<open>sha256.Sum256\<close>).
  A running hash \<open>h := sha256.New()\<close> is modelled by the bytes written to it so far:
  \<open>h.Write(b)\<close> appends, \<open>h.Sum(nil)\<close> is the digest of everything written.
\<close>

type_synonym hash_state = bytes

definition sha256_New :: hash_state where
  "sha256_New = []"

definition hash_Write :: "hash_state \<Rightarrow> bytes \<Rightarrow> hash_state" where
  "hash_Write h b = h @ b"

definition hash_Sum :: "(bytes \<Rightarrow> array32) \<Rightarrow> hash_state \<Rightarrow> bytes" where
  "hash_Sum sha h = slice32 (sha h)"

subsection \<open>State changes\<close>

text \<open>\<open>StateAction\<close> is a Go \<open>int\<close>; \<open>Create\<close>, \<open>Update\<close>, \<open>Remove\<close> are 1, 2, 3.\<close>

type_synonym StateAction = "64 word"

definition Create :: StateAction where "Create = 1"
definition Update :: StateAction where "Update = 2"
definition Remove :: StateAction where "Remove = 3"

record StateChange =
  StateAction :: StateAction
  ObjectID :: bytes
  ContractID :: bytes
  Value :: bytes

type_synonym StateChanges = "StateChange list"

subsection \<open>Instructions\<close>

record ObjectID =
  DarcID :: bytes
  InstanceID :: array32

text \<open>\<open>ObjectID.Slice\<close>: DarcID and InstanceID concatenated.\<close>

definition Slice :: "ObjectID \<Rightarrow> bytes" where
  "Slice oid = (let out = []; out = out @ DarcID oid in out @ slice32 (InstanceID oid))"

record Argument =
  Name :: string
  Value :: bytes

type_synonym Arguments = "Argument list"

record Spawn =
  ContractID :: string
  Args :: Arguments

record Invoke =
  Command :: string
  Args :: Arguments

datatype Delete = Delete

text \<open>\<open>darc.Signature\<close>; the signer's identity is opaque here.\<close>

record 'id Signature =
  Signature :: bytes
  Signer :: 'id

text \<open>
  The three payloads are pointers in Go (\<open>*Spawn\<close>, \<open>*Invoke\<close>, \<open>*Delete\<close>):
  \<open>None\<close> is \<open>nil\<close>. \<open>Index\<close> and \<open>Length\<close> are Go \<open>int\<close>s (64 bits).
\<close>

record 'id Instruction =
  ObjectID :: ObjectID
  Nonce :: array32
  Index :: "64 word"
  Length :: "64 word"
  Spawn :: "Spawn option"
  Invoke :: "Invoke option"
  Delete :: "Delete option"
  Signatures :: "'id Signature list"

type_synonym 'id Instructions = "'id Instruction list"

record 'id ClientTransaction =
  Instructions :: "'id Instructions"

subsection \<open>Errors and panics\<close>

text \<open>
  A Go \<open>error\<close> value is modelled by its message. A function that can also panic
  returns a \<open>result\<close>: the value, the error it returns, or the panic that aborts it.
\<close>

datatype error = Error string

datatype panic = NilDereference | IndexOutOfRange | TypeAssertion

datatype 'a result = Ok 'a | Err error | Panic panic

section \<open>Operations on instructions\<close>

text \<open>\<open>Arguments.Search\<close>: the value of the first argument of that name, \<open>nil\<close> if none.\<close>

fun Search :: "Arguments \<Rightarrow> string \<Rightarrow> bytes" where
  "Search [] name = []"
| "Search (arg # args) name = (if Name arg = name then Argument.Value arg else Search args name)"

text \<open>The loop \<open>for _, a := range args\<close> of \<open>Instruction.Hash\<close>.\<close>

definition write_args :: "hash_state \<Rightarrow> Argument list \<Rightarrow> hash_state" where
  "write_args h args =
     foldl (\<lambda>h a. hash_Write (hash_Write h (bytes_of_string (Name a))) (Argument.Value a)) h args"

text \<open>
  \<open>Instruction.Hash\<close>, up to \<open>h.Sum(nil)\<close>: everything the function writes to the
  running hash. The \<open>switch\<close> takes the first case whose payload is not \<open>nil\<close> and
  has no default.
\<close>

definition Hash_written :: "'id Instruction \<Rightarrow> hash_state" where
  "Hash_written instr =
     (let h = sha256_New;
          h = hash_Write h (DarcID (Instruction.ObjectID instr));
          h = hash_Write h (slice32 (InstanceID (Instruction.ObjectID instr)));
          h = hash_Write h (slice32 (Nonce instr));
          b = PutUint32 (ucast (Index instr));
          h = hash_Write h b;
          b = PutUint32 (ucast (Length instr));
          h = hash_Write h b;
          (h, args) =
            (case Spawn instr of
               Some s \<Rightarrow>
                 (hash_Write (hash_Write h [0]) (bytes_of_string (Spawn.ContractID s)), Spawn.Args s)
             | None \<Rightarrow>
                 (case Invoke instr of
                    Some v \<Rightarrow> (hash_Write h [1], Invoke.Args v)
                  | None \<Rightarrow>
                      (case Delete instr of
                         Some d \<Rightarrow> (hash_Write h [2], [])
                       | None \<Rightarrow> (h, []))))
      in write_args h args)"

definition Hash :: "(bytes \<Rightarrow> array32) \<Rightarrow> 'id Instruction \<Rightarrow> bytes" where
  "Hash sha instr = hash_Sum sha (Hash_written instr)"

text \<open>\<open>Instruction.DeriveID\<close>.\<close>

definition DeriveID :: "(bytes \<Rightarrow> array32) \<Rightarrow> 'id Instruction \<Rightarrow> string \<Rightarrow> ObjectID" where
  "DeriveID sha instr what =
     (let h = sha256_New;
          h = hash_Write h (bytes_of_string what);
          h = hash_Write h (Hash sha instr);
          h = foldl (\<lambda>h s. hash_Write h (Signature s)) h (Signatures instr);
          sum = hash_Sum sha h;
          iid = copy32 zero32 sum
      in \<lparr>DarcID = DarcID (Instruction.ObjectID instr), InstanceID = iid\<rparr>)"

text \<open>\<open>Instruction.Action\<close>.\<close>

definition Action :: "'id Instruction \<Rightarrow> string" where
  "Action instr =
     (let a = ''invalid'' in
      case Spawn instr of
        Some s \<Rightarrow> ''spawn:'' @ Spawn.ContractID s
      | None \<Rightarrow>
          (case Invoke instr of
             Some v \<Rightarrow> ''invoke:'' @ Command v
           | None \<Rightarrow>
               (case Delete instr of
                  Some d \<Rightarrow> ''Delete''
                | None \<Rightarrow> a)))"

datatype instrType = InvalidInstrType | SpawnType | InvokeType | DeleteType

text \<open>\<open>Instruction.GetType\<close>.\<close>

definition GetType :: "'id Instruction \<Rightarrow> instrType" where
  "GetType instr =
     (if Spawn instr \<noteq> None \<and> Invoke instr = None \<and> Delete instr = None then SpawnType
      else if Spawn instr = None \<and> Invoke instr \<noteq> None \<and> Delete instr = None then InvokeType
      else if Spawn instr = None \<and> Invoke instr = None \<and> Delete instr \<noteq> None then DeleteType
      else InvalidInstrType)"

section \<open>The object/state resolver\<close>

text \<open>
  Modelled from the spec: the key/value store (package \<open>collection\<close>) is consumed
  through \<open>Get(key) -> record\<close> and \<open>record.Values() -> ordered sequence of opaque
  fields\<close>, with the failure modes not-found and malformed-record. A field is a Go
  \<open>interface{}\<close>: a \<open>[]byte\<close> or a value of another type. A store view maps a key
  to what \<open>coll.Get(key).Record()\<close> returns (an error or a record), and a record is
  what its \<open>Values()\<close> returns (an error or the fields).
\<close>

datatype iface = IBytes bytes | INotBytes

type_synonym Record = "error + iface list"

type_synonym CollectionView = "bytes \<Rightarrow> error + Record"

text \<open>Go's \<open>string(b)\<close> for a byte slice \<open>b\<close>.\<close>

definition string_of_bytes :: "bytes \<Rightarrow> string" where
  "string_of_bytes b = map (\<lambda>x. char_of (unat x)) b"

text \<open>
  \<open>Instruction.GetContractState\<close>. The index expression \<open>cv[1]\<close> panics on a
  slice shorter than two, and the type assertions \<open>.([]byte)\<close> panic on a field of
  another type; \<open>cv[1]\<close> is evaluated before \<open>cv[0]\<close>.
\<close>

definition GetContractState :: "'id Instruction \<Rightarrow> CollectionView \<Rightarrow> (string \<times> bytes) result" where
  "GetContractState instr coll =
     (case Spawn instr of
        Some s \<Rightarrow> Ok (Spawn.ContractID s, [])
      | None \<Rightarrow>
          (case coll (Slice (Instruction.ObjectID instr)) of
             Inl err \<Rightarrow> Err err
           | Inr record \<Rightarrow>
               (case record of
                  Inl err \<Rightarrow> Err err
                | Inr cv \<Rightarrow>
                    if length cv < 2 then Panic IndexOutOfRange
                    else
                      (case cv ! 1 of
                         INotBytes \<Rightarrow> Panic TypeAssertion
                       | IBytes c \<Rightarrow>
                           (case cv ! 0 of
                              INotBytes \<Rightarrow> Panic TypeAssertion
                            | IBytes st \<Rightarrow> Ok (string_of_bytes c, st))))))"

section \<open>The authorization request\<close>

text \<open>
  Modelled from the spec: the request handed to the policy engine (\<open>darc.Request\<close>) is
  \<open>{policyBaseID, action, messageDigest, identities[], signatures[]}\<close>, and
  \<open>darc.InitRequest\<close> fills it from its five arguments in that order.
\<close>

record 'id Request =
  BaseID :: bytes
  ReqAction :: string
  Msg :: bytes
  Identities :: "'id list"
  ReqSignatures :: "bytes list"

definition InitRequest :: "bytes \<Rightarrow> string \<Rightarrow> bytes \<Rightarrow> 'id list \<Rightarrow> bytes list \<Rightarrow> 'id Request" where
  "InitRequest baseID action msg ids sigs =
     \<lparr>BaseID = baseID, ReqAction = action, Msg = msg, Identities = ids, ReqSignatures = sigs\<rparr>"

text \<open>
  \<open>Instruction.ToDarcRequest\<close>. The policy-document parser \<open>darc.NewFromProtobuf\<close>
  and \<open>Darc.GetID\<close> are parameters. \<open>instr.Invoke.Args\<close> dereferences the Invoke
  pointer.
\<close>

definition ToDarcRequest ::
  "(bytes \<Rightarrow> array32) \<Rightarrow> (bytes \<Rightarrow> error + 'darc) \<Rightarrow> ('darc \<Rightarrow> bytes) \<Rightarrow>
     'id Instruction \<Rightarrow> 'id Request result" where
  "ToDarcRequest sha NewFromProtobuf GetID instr =
     (let baseID = DarcID (Instruction.ObjectID instr);
          action = Action instr;
          ids = map Signer (Signatures instr);
          sigs = map Signature (Signatures instr)
      in if action = ''_evolve'' then
           (case Invoke instr of
              None \<Rightarrow> Panic NilDereference
            | Some v \<Rightarrow>
                (let darcBuf = Search (Invoke.Args v) ''darc'' in
                 case NewFromProtobuf darcBuf of
                   Inl err \<Rightarrow> Err err
                 | Inr d \<Rightarrow> Ok (InitRequest baseID action (GetID d) ids sigs)))
         else Ok (InitRequest baseID action (Hash sha instr) ids sigs))"

section \<open>The digest of a sequence of state changes\<close>

text \<open>
  \<open>StateChanges.Hash\<close>. \<open>protobuf.Encode\<close> is a parameter that returns both of
  Go's results, the buffer and the error (\<open>None\<close> is \<open>nil\<close>); the loop writes the
  buffer whatever the error is. The second component of the loop's state counts the
  lines logged.
\<close>

definition StateChanges_Hash_loop ::
  "(StateChange \<Rightarrow> bytes \<times> error option) \<Rightarrow> StateChanges \<Rightarrow> hash_state \<times> nat \<Rightarrow> hash_state \<times> nat" where
  "StateChanges_Hash_loop Encode scs st =
     foldl (\<lambda>(h, logged) sc.
              let (scBuf, err) = Encode sc;
                  logged = (if err \<noteq> None then logged + 1 else logged)
              in (hash_Write h scBuf, logged)) st scs"

definition StateChanges_Hash ::
  "(bytes \<Rightarrow> array32) \<Rightarrow> (StateChange \<Rightarrow> bytes \<times> error option) \<Rightarrow> StateChanges \<Rightarrow> bytes" where
  "StateChanges_Hash sha Encode scs =
     hash_Sum sha (fst (StateChanges_Hash_loop Encode scs (sha256_New, 0)))"

section \<open>The ordering of client transactions\<close>

text \<open>\<open>bytes.Compare\<close>: lexicographic, bytes compared unsigned.\<close>

fun bytes_Compare :: "bytes \<Rightarrow> bytes \<Rightarrow> int" where
  "bytes_Compare [] [] = 0"
| "bytes_Compare [] (y # ys) = - 1"
| "bytes_Compare (x # xs) [] = 1"
| "bytes_Compare (x # xs) (y # ys) =
     (if x < y then - 1 else if y < x then 1 else bytes_Compare xs ys)"

text \<open>
  \<open>sort.Slice\<close> of the Go standard library, as an insertion sort under the given
  \<open>less\<close> function (\<open>lessf\<close>). Go does not fix the order of elements that
  \<open>less\<close> does not separate.
\<close>

fun sort_insert :: "('a \<Rightarrow> 'a \<Rightarrow> bool) \<Rightarrow> 'a \<Rightarrow> 'a list \<Rightarrow> 'a list" where
  "sort_insert lessf x [] = [x]"
| "sort_insert lessf x (y # ys) = (if lessf y x then y # sort_insert lessf x ys else x # y # ys)"

definition sort_Slice :: "('a \<Rightarrow> 'a \<Rightarrow> bool) \<Rightarrow> 'a list \<Rightarrow> 'a list" where
  "sort_Slice lessf xs = foldr (sort_insert lessf) xs []"

text \<open>The closure \<open>less\<close> of \<open>sortWithSalt\<close>, on the elements at the two indices.\<close>

definition salted_less :: "(bytes \<Rightarrow> array32) \<Rightarrow> bytes \<Rightarrow> bytes \<Rightarrow> bytes \<Rightarrow> bool" where
  "salted_less sha salt a b =
     (let h1 = sha (salt @ a);
          h2 = sha (salt @ b)
      in bytes_Compare (slice32 h1) (slice32 h2) = - 1)"

definition sortWithSalt :: "(bytes \<Rightarrow> array32) \<Rightarrow> bytes list \<Rightarrow> bytes \<Rightarrow> bytes list" where
  "sortWithSalt sha ts salt = sort_Slice (salted_less sha salt) ts"

text \<open>\<open>xorTransactions\<close>: the inner loop runs over the indices of \<open>result\<close>.\<close>

definition xorTransactions :: "(bytes \<Rightarrow> array32) \<Rightarrow> bytes list \<Rightarrow> bytes" where
  "xorTransactions sha ts =
     foldl (\<lambda>result t.
              let hs = sha t
              in map (\<lambda>i. (result ! i) XOR (slice32 hs ! i)) [0..<length result])
       (replicate 32 0) ts"

text \<open>
  \<open>network.Marshal\<close> and \<open>network.Unmarshal\<close> are parameters. A decoded message is
  a \<open>*ClientTransaction\<close> or a value of another registered type, which the type
  assertion of \<open>sortTransactions\<close> rejects.
\<close>

datatype 'id message = ClientTransactionMsg "'id ClientTransaction" | OtherMsg

text \<open>The first loop of \<open>sortTransactions\<close>: it returns at the first encoding error.\<close>

fun marshal_loop ::
  "('id ClientTransaction \<Rightarrow> error + bytes) \<Rightarrow> 'id ClientTransaction list \<Rightarrow> error + bytes list" where
  "marshal_loop Marshal [] = Inr []"
| "marshal_loop Marshal (t # ts) =
     (case Marshal t of
        Inl err \<Rightarrow> Inl err
      | Inr b \<Rightarrow>
          (case marshal_loop Marshal ts of
             Inl err \<Rightarrow> Inl err
           | Inr bs \<Rightarrow> Inr (b # bs)))"

text \<open>The second loop: it returns at the first decoding error or foreign message.\<close>

fun unmarshal_loop ::
  "(bytes \<Rightarrow> error + 'id message) \<Rightarrow> bytes list \<Rightarrow> error + 'id ClientTransaction list" where
  "unmarshal_loop Unmarshal [] = Inr []"
| "unmarshal_loop Unmarshal (b # bs) =
     (case Unmarshal b of
        Inl err \<Rightarrow> Inl err
      | Inr OtherMsg \<Rightarrow> Inl (Error ''Data of wrong type'')
      | Inr (ClientTransactionMsg t) \<Rightarrow>
          (case unmarshal_loop Unmarshal bs of
             Inl err \<Rightarrow> Inl err
           | Inr sortedTs \<Rightarrow> Inr (t # sortedTs)))"

text \<open>The last loop: \<open>ts[i] = *sortedTs[i]\<close> for every index of \<open>sortedTs\<close>.\<close>

definition assign_loop :: "'a list \<Rightarrow> 'a list \<Rightarrow> 'a list" where
  "assign_loop ts sortedTs = foldl (\<lambda>ts i. ts[i := sortedTs ! i]) ts [0..<length sortedTs]"

text \<open>
  \<open>sortTransactions\<close>: the slice \<open>ts\<close> after the call, and the error returned
  (\<open>None\<close> is \<open>nil\<close>).
\<close>

definition sortTransactions ::
  "(bytes \<Rightarrow> array32) \<Rightarrow> ('id ClientTransaction \<Rightarrow> error + bytes) \<Rightarrow> (bytes \<Rightarrow> error + 'id message) \<Rightarrow>
     'id ClientTransaction list \<Rightarrow> 'id ClientTransaction list \<times> error option" where
  "sortTransactions sha Marshal Unmarshal ts =
     (case marshal_loop Marshal ts of
        Inl err \<Rightarrow> (ts, Some err)
      | Inr bs \<Rightarrow>
          (let salt = xorTransactions sha bs;
               bs = sortWithSalt sha bs salt
           in case unmarshal_loop Unmarshal bs of
                Inl err \<Rightarrow> (ts, Some err)
              | Inr sortedTs \<Rightarrow> (assign_loop ts sortedTs, None)))"

section \<open>The payload invariant\<close>

text \<open>
  The number of payloads an instruction has set; the data model asks for exactly one.
\<close>

definition payloads_set :: "'id Instruction \<Rightarrow> nat" where
  "payloads_set instr =
     (if Spawn instr \<noteq> None then 1 else 0) + (if Invoke instr \<noteq> None then 1 else 0)
       + (if Delete instr \<noteq> None then 1 else 0)"

section \<open>Concrete values for evaluation\<close>

text \<open>
  A stand-in for SHA-256 on small examples: 31 zero bytes, then the sum of the input
  bytes. It is used only to evaluate the functions above on concrete inputs.
\<close>

definition checksum_sha :: "bytes \<Rightarrow> array32" where
  "checksum_sha x = Abs_array32 (replicate 31 0 @ [sum_list x])"

text \<open>The zero value \<open>Instruction{}\<close>, and instructions built from it.\<close>

definition zero_instr :: "string Instruction" where
  "zero_instr =
     \<lparr>ObjectID = \<lparr>DarcID = [], InstanceID = zero32\<rparr>, Nonce = zero32, Index = 0, Length = 0,
      Spawn = None, Invoke = None, Delete = None, Signatures = []\<rparr>"

definition spawn_invoke_instr :: "string Instruction" where
  "spawn_invoke_instr =
     zero_instr\<lparr>Spawn := Some \<lparr>ContractID = ''coin'', Args = []\<rparr>,
                Invoke := Some \<lparr>Command = ''transfer'', Args = []\<rparr>\<rparr>"

definition delete_instr :: "string Instruction" where
  "delete_instr =
     zero_instr\<lparr>Delete := Some Delete.Delete,
                Signatures := [\<lparr>Signature = [1], Signer = ''alice''\<rparr>, \<lparr>Signature = [2], Signer = ''bob''\<rparr>]\<rparr>"

definition evolve_instr :: "string Instruction" where
  "evolve_instr = zero_instr\<lparr>Invoke := Some \<lparr>Command = ''evolve'', Args = []\<rparr>\<rparr>"

text \<open>
  A small codec for client transactions made of \<open>n\<close> copies of \<open>delete_instr\<close>:
  the encoding is the single byte \<open>n\<close>; 256 instructions and more do not encode.
\<close>

definition batch :: "nat \<Rightarrow> string ClientTransaction" where
  "batch n = \<lparr>Instructions = replicate n delete_instr\<rparr>"

definition count_Marshal :: "string ClientTransaction \<Rightarrow> error + bytes" where
  "count_Marshal ct =
     (if length (Instructions ct) < 256 then Inr [of_nat (length (Instructions ct))]
      else Inl (Error ''batch too long''))"

definition count_Unmarshal :: "bytes \<Rightarrow> error + string message" where
  "count_Unmarshal b =
     (case b of
        [n] \<Rightarrow> Inr (ClientTransactionMsg (batch (unat n)))
      | _ \<Rightarrow> Inl (Error ''not one byte''))"

text \<open>
  An encoder of state changes that fails, with a \<open>nil\<close> buffer, on an empty value and
  otherwise encodes a state change as its value; and a state change with a given value.
\<close>

definition value_Encode :: "StateChange \<Rightarrow> bytes \<times> error option" where
  "value_Encode sc =
     (if StateChange.Value sc = [] then ([], Some (Error ''nothing to encode''))
      else (StateChange.Value sc, None))"

definition create_change :: "bytes \<Rightarrow> StateChange" where
  "create_change v = StateChange.make Create [] [] v"

section \<open>Basic facts\<close>

lemma length_slice32 [simp]: "length (slice32 a) = 32"
  using slice32 [of a] by simp

lemma slice32_Abs [simp]: "length bs = 32 \<Longrightarrow> slice32 (Abs_array32 bs) = bs"
  by (simp add: Abs_array32_inverse)

lemma slice32_zero32 [simp]: "slice32 zero32 = replicate 32 0"
  by (simp add: zero32_def)

lemma copy32_slice32 [simp]: "copy32 dst (slice32 d) = d"
  by (simp add: copy32_def slice32_inverse)

lemma write_args_concat:
  "write_args h args = h @ concat (map (\<lambda>a. bytes_of_string (Name a) @ Argument.Value a) args)"
  unfolding write_args_def
  by (induction args arbitrary: h) (simp_all add: hash_Write_def)

lemma write_sigs_concat:
  "foldl (\<lambda>h s. hash_Write h (Signature s)) h sigs = h @ concat (map Signature sigs)"
  by (induction sigs arbitrary: h) (simp_all add: hash_Write_def)

lemma Hash_written_eq:
  "Hash_written instr =
     DarcID (Instruction.ObjectID instr) @ slice32 (InstanceID (Instruction.ObjectID instr)) @
     slice32 (Nonce instr) @ PutUint32 (ucast (Index instr)) @ PutUint32 (ucast (Length instr)) @
     (case Spawn instr of
        Some s \<Rightarrow> [0] @ bytes_of_string (Spawn.ContractID s) @
                   concat (map (\<lambda>a. bytes_of_string (Name a) @ Argument.Value a) (Spawn.Args s))
      | None \<Rightarrow>
         (case Invoke instr of
            Some v \<Rightarrow> [1] @ concat (map (\<lambda>a. bytes_of_string (Name a) @ Argument.Value a) (Invoke.Args v))
          | None \<Rightarrow> (case Delete instr of Some d \<Rightarrow> [2] | None \<Rightarrow> [])))"
  by (simp add: Hash_written_def Let_def write_args_concat hash_Write_def sha256_New_def
      split: option.splits)

text \<open>The four bytes of \<open>PutUint32\<close> are the base-256 digits, least significant first.\<close>

lemma le_digits:
  fixes x :: nat
  assumes "x < 4294967296"
  shows "x mod 256 + 256 * (x div 256 mod 256) + 65536 * (x div 65536 mod 256)
           + 16777216 * (x div 16777216 mod 256) = x"
proof -
  define y where "y = x div 256"
  define z where "z = y div 256"
  define w where "w = z div 256"
  have x: "x = x mod 256 + 256 * y" by (simp add: y_def)
  have y: "y = y mod 256 + 256 * z" by (simp add: z_def)
  have z: "z = z mod 256 + 256 * w" by (simp add: w_def)
  have w: "w mod 256 = w" using assms by (simp add: w_def z_def y_def div_mult2_eq)
  have dz: "x div 65536 = z" by (simp add: z_def y_def div_mult2_eq)
  have dw: "x div 16777216 = w" by (simp add: w_def z_def y_def div_mult2_eq)
  have "x mod 256 + 256 * (y mod 256) + 65536 * (z mod 256) + 16777216 * w = x"
    using x y z by linarith
  then show ?thesis by (simp add: dz dw w y_def [symmetric])
qed

lemma PutUint32_little_endian:
  "length (PutUint32 v) = 4 \<and>
   unat (PutUint32 v ! 0) + 256 * unat (PutUint32 v ! 1) + 65536 * unat (PutUint32 v ! 2)
     + 16777216 * unat (PutUint32 v ! 3) = unat v"
proof -
  have b: "unat v < 4294967296"
    using unsigned_less [of v, where ?'a = nat] by simp
  have 0: "unat (ucast v :: 8 word) = unat v mod 256"
    by (simp add: unsigned_ucast_eq take_bit_eq_mod)
  have 1: "unat (ucast (drop_bit 8 v) :: 8 word) = (unat v div 256) mod 256"
    by (simp add: unsigned_ucast_eq unat_drop_bit_eq drop_bit_eq_div take_bit_eq_mod unat_div)
  have 2: "unat (ucast (drop_bit 16 v) :: 8 word) = (unat v div 65536) mod 256"
    by (simp add: unsigned_ucast_eq unat_drop_bit_eq drop_bit_eq_div take_bit_eq_mod unat_div)
  have 3: "unat (ucast (drop_bit 24 v) :: 8 word) = (unat v div 16777216) mod 256"
    by (simp add: unsigned_ucast_eq unat_drop_bit_eq drop_bit_eq_div take_bit_eq_mod unat_div)
  have 4: "unat v div 16777216 mod 256 = unat v div 16777216"
    using b by (intro mod_less) (simp add: less_mult_imp_div_less)
  show ?thesis
    unfolding PutUint32_def using le_digits [OF b] by (simp add: 0 1 2 3 4)
qed

lemma Action_not_evolve: "Action instr \<noteq> ''_evolve''"
  by (auto simp add: Action_def split: option.splits)

text \<open>The loop of \<open>StateChanges.Hash\<close>: what it writes, and how many lines it logs.\<close>

lemma Hash_loop_fst:
  "fst (StateChanges_Hash_loop Encode scs (h, n)) = h @ concat (map (\<lambda>sc. fst (Encode sc)) scs)"
  unfolding StateChanges_Hash_loop_def
  by (induction scs arbitrary: h n) (simp_all add: hash_Write_def Let_def split: prod.splits)

lemma Hash_loop_snd:
  "snd (StateChanges_Hash_loop Encode scs (h, n)) = n + length (filter (\<lambda>sc. snd (Encode sc) \<noteq> None) scs)"
  unfolding StateChanges_Hash_loop_def
  by (induction scs arbitrary: h n) (simp_all add: hash_Write_def Let_def split: prod.splits)

lemma concat_skip_empty:
  "\<forall>x. \<not> P x \<longrightarrow> f x = [] \<Longrightarrow> concat (map f (filter P xs)) = concat (map f xs)"
  by (induction xs) simp_all

section \<open>Facts about the ordering\<close>

subsection \<open>Comparison and sorting\<close>

text \<open>
  \<open>bytes.Compare\<close> decides the lexicographic order on byte lists, so \<open>sort_Slice\<close>
  under \<open>salted_less\<close> is a sort by the salted digest.
\<close>

lemma bytes_Compare_less: "bytes_Compare a b = - 1 \<longleftrightarrow> a < b"
  by (induction a b rule: bytes_Compare.induct) auto

lemma bytes_Compare_le: "bytes_Compare a b \<le> 0 \<longleftrightarrow> a \<le> b"
  by (induction a b rule: bytes_Compare.induct) auto

lemma sort_insert_insort_key: "sort_insert (\<lambda>a b. f a < f b) x ys = insort_key f x ys"
  by (induction ys) auto

lemma sort_Slice_sort_key: "sort_Slice (\<lambda>a b. f a < f b) xs = sort_key f xs"
  by (induction xs) (simp_all add: sort_Slice_def sort_insert_insort_key sort_key_def)

lemma salted_less_key:
  "salted_less sha salt = (\<lambda>a b. slice32 (sha (salt @ a)) < slice32 (sha (salt @ b)))"
  by (intro ext) (simp add: salted_less_def bytes_Compare_less)

lemma sortWithSalt_sort_key:
  "sortWithSalt sha ts salt = sort_key (\<lambda>b. slice32 (sha (salt @ b))) ts"
  by (simp add: sortWithSalt_def salted_less_key sort_Slice_sort_key)

lemma mset_sortWithSalt: "mset (sortWithSalt sha ts salt) = mset ts"
  by (simp add: sortWithSalt_sort_key)

lemma sorted_sortWithSalt:
  "sorted_wrt (\<lambda>a b. bytes_Compare (slice32 (sha (salt @ a))) (slice32 (sha (salt @ b))) \<le> 0)
     (sortWithSalt sha ts salt)"
proof -
  have "sorted (map (\<lambda>b. slice32 (sha (salt @ b))) (sortWithSalt sha ts salt))"
    by (simp add: sortWithSalt_sort_key)
  then show ?thesis
    by (simp add: sorted_map bytes_Compare_le)
qed

text \<open>
  Where the keys of the elements differ, the sorted permutation is unique: the result
  does not depend on the input order, nor on how the sort treats equal keys.
\<close>

lemma sort_key_unique:
  fixes f :: "'a \<Rightarrow> 'k::linorder"
  assumes "mset ys = mset xs" and "inj_on f (set xs)"
  shows "sort_key f ys = sort_key f xs"
proof -
  have "sort (map f ys) = map f (sort_key f ys)" "sort (map f xs) = map f (sort_key f xs)"
    by (rule properties_for_sort; simp)+
  moreover have "sort (map f ys) = sort (map f xs)"
    by (rule properties_for_sort) (simp_all add: assms(1))
  ultimately have "map f (sort_key f ys) = map f (sort_key f xs)"
    by simp
  moreover have "set ys = set xs"
    using assms(1) by (rule mset_eq_setD)
  ultimately show ?thesis
    using assms(2) by (simp add: inj_on_map_eq_map)
qed

lemma sortWithSalt_unique:
  assumes "mset ys = mset xs" and "inj_on (\<lambda>b. sha (salt @ b)) (set xs)"
  shows "sortWithSalt sha ys salt = sortWithSalt sha xs salt"
proof -
  have "inj_on (\<lambda>b. slice32 (sha (salt @ b))) (set xs)"
    using assms(2) by (simp add: inj_on_def slice32_inject)
  with assms(1) show ?thesis
    unfolding sortWithSalt_sort_key by (rule sort_key_unique)
qed

lemma sortWithSalt_characterised:
  assumes "mset ys = mset xs"
    and "sorted_wrt (\<lambda>a b. bytes_Compare (slice32 (sha (salt @ a))) (slice32 (sha (salt @ b))) \<le> 0) ys"
    and "inj_on (\<lambda>b. sha (salt @ b)) (set xs)"
  shows "ys = sortWithSalt sha xs salt"
proof -
  have "sorted (map (\<lambda>b. slice32 (sha (salt @ b))) ys)"
    using assms(2) by (simp add: sorted_map bytes_Compare_le)
  then have "sortWithSalt sha ys salt = ys"
    unfolding sortWithSalt_sort_key by (rule sort_key_id_if_sorted)
  with sortWithSalt_unique [OF assms(1, 3)] show ?thesis
    by simp
qed

subsection \<open>The salt\<close>

lemma map2_xor_commute:
  fixes r :: bytes
  shows "map2 (XOR) (map2 (XOR) r a) b = map2 (XOR) (map2 (XOR) r b) a"
proof (induction r arbitrary: a b)
  case Nil
  then show ?case by simp
next
  case (Cons x r)
  then show ?case
    by (cases a; cases b) (simp_all add: ac_simps)
qed

lemma xor_step:
  "length result = 32 \<Longrightarrow>
   map (\<lambda>i. (result ! i) XOR (slice32 hs ! i)) [0..<length result] = map2 (XOR) result (slice32 hs)"
  by (rule nth_equalityI) simp_all

lemma xor_fold_aux:
  "length r = 32 \<Longrightarrow>
   foldl (\<lambda>result t. let hs = sha t in map (\<lambda>i. (result ! i) XOR (slice32 hs ! i)) [0..<length result]) r ts
     = fold (\<lambda>t result. map2 (XOR) result (slice32 (sha t))) ts r"
proof (induction ts arbitrary: r)
  case Nil
  then show ?case by simp
next
  case (Cons t ts)
  have len: "length (map2 (XOR) r (slice32 (sha t))) = 32"
    using Cons.prems by simp
  have step: "(let hs = sha t in map (\<lambda>i. (r ! i) XOR (slice32 hs ! i)) [0..<length r])
                = map2 (XOR) r (slice32 (sha t))"
    using xor_step [OF Cons.prems, of "sha t"] by (simp add: Let_def)
  show ?case
    by (simp only: foldl_Cons fold_simps o_apply step Cons.IH [OF len])
qed

text \<open>The salt is the bytewise XOR of the digests of the elements, from 32 zero bytes.\<close>

lemma xorTransactions_fold:
  "xorTransactions sha ts = fold (\<lambda>t result. map2 (XOR) result (slice32 (sha t))) ts (replicate 32 0)"
  unfolding xorTransactions_def by (rule xor_fold_aux) simp

lemma xorTransactions_perm:
  assumes "mset ts' = mset ts"
  shows "xorTransactions sha ts' = xorTransactions sha ts"
proof -
  have "fold (\<lambda>t result. map2 (XOR) result (slice32 (sha t))) ts'
      = fold (\<lambda>t result. map2 (XOR) result (slice32 (sha t))) ts"
    by (rule fold_multiset_equiv) (auto simp add: assms fun_eq_iff map2_xor_commute)
  then show ?thesis
    by (simp add: xorTransactions_fold)
qed

subsection \<open>The loops of sortTransactions\<close>

lemma marshal_loop_Inr_iff: "marshal_loop M ts = Inr bs \<longleftrightarrow> map M ts = map Inr bs"
  by (induction ts arbitrary: bs) (fastforce split: sum.splits)+

lemma marshal_loop_Inl: "t \<in> set ts \<Longrightarrow> M t = Inl e \<Longrightarrow> \<exists>e'. marshal_loop M ts = Inl e'"
  by (induction ts) (auto split: sum.splits)

lemma map_Msg_eq:
  "map (\<lambda>t. Inr (ClientTransactionMsg t)) xs = map (\<lambda>t. Inr (ClientTransactionMsg t)) ys \<longleftrightarrow> xs = ys"
  by (rule inj_map_eq_map) (simp add: inj_def)

lemma unmarshal_loop_Inr_iff:
  "unmarshal_loop U bs = Inr ts \<longleftrightarrow> map U bs = map (\<lambda>t. Inr (ClientTransactionMsg t)) ts"
  by (induction bs arbitrary: ts) (fastforce simp add: map_Msg_eq split: sum.splits message.splits)+

lemma unmarshal_loop_Inl:
  "b \<in> set bs \<Longrightarrow> \<forall>t. U b \<noteq> Inr (ClientTransactionMsg t) \<Longrightarrow> \<exists>e. unmarshal_loop U bs = Inl e"
  by (induction bs) (auto split: sum.splits message.splits)

lemma assign_loop_prefix:
  "n \<le> length sortedTs \<Longrightarrow> length sortedTs = length ts \<Longrightarrow>
   foldl (\<lambda>ts i. ts[i := sortedTs ! i]) ts [0..<n] = take n sortedTs @ drop n ts"
proof (induction n)
  case 0
  then show ?case by simp
next
  case (Suc n)
  then have n: "n < length ts" "n < length sortedTs" by simp_all
  have "(take n sortedTs @ drop n ts)[n := sortedTs ! n]
          = take n sortedTs @ (drop n ts)[0 := sortedTs ! n]"
    using n by (simp add: list_update_append)
  also have "\<dots> = take n sortedTs @ sortedTs ! n # drop (Suc n) ts"
    using n by (simp add: Cons_nth_drop_Suc [symmetric])
  also have "\<dots> = take (Suc n) sortedTs @ drop (Suc n) ts"
    using n by (simp add: take_Suc_conv_app_nth)
  finally show ?case
    using Suc by simp
qed

text \<open>
  The slices \<open>ts\<close>, \<open>bs\<close> and \<open>sortedTs\<close> of \<open>sortTransactions\<close> have one length, so
  the last loop writes every element of \<open>ts\<close> and never indexes out of range.
\<close>

lemma assign_loop_eq: "length sortedTs = length ts \<Longrightarrow> assign_loop ts sortedTs = sortedTs"
  unfolding assign_loop_def using assign_loop_prefix [of "length sortedTs" sortedTs ts] by simp

lemma sortTransactions_success:
  assumes "marshal_loop M ts = Inr bs"
    and "unmarshal_loop U (sortWithSalt sha bs (xorTransactions sha bs)) = Inr out"
  shows "sortTransactions sha M U ts = (out, None)"
proof -
  have "length bs = length ts"
    using assms(1) by (auto simp add: marshal_loop_Inr_iff dest: map_eq_imp_length_eq)
  moreover have "length out = length (sortWithSalt sha bs (xorTransactions sha bs))"
    using assms(2) by (auto simp add: unmarshal_loop_Inr_iff dest: map_eq_imp_length_eq)
  moreover have "length (sortWithSalt sha bs (xorTransactions sha bs)) = length bs"
    using mset_sortWithSalt [of sha bs "xorTransactions sha bs"] by (rule mset_eq_length)
  ultimately show ?thesis
    using assms by (simp add: sortTransactions_def assign_loop_eq)
qed

lemma sortTransactions_None:
  assumes "sortTransactions sha M U ts = (out, None)"
  obtains bs where "marshal_loop M ts = Inr bs"
    and "unmarshal_loop U (sortWithSalt sha bs (xorTransactions sha bs)) = Inr out"
proof -
  from assms obtain bs where bs: "marshal_loop M ts = Inr bs"
    by (auto simp add: sortTransactions_def split: sum.splits)
  with assms obtain sortedTs where
    s: "unmarshal_loop U (sortWithSalt sha bs (xorTransactions sha bs)) = Inr sortedTs"
    by (auto simp add: sortTransactions_def Let_def split: sum.splits)
  with bs have "sortTransactions sha M U ts = (sortedTs, None)"
    by (rule sortTransactions_success)
  with assms have "out = sortedTs"
    by simp
  with bs s that show thesis
    by simp
qed

lemma encodings_eq:
  assumes "map M ts = map Inr bs"
  shows "bs = map (\<lambda>t. case M t of Inr b \<Rightarrow> b) ts"
proof -
  have "map (\<lambda>r. case r of Inr b \<Rightarrow> b) (map M ts) = map (\<lambda>r. case r of Inr b \<Rightarrow> b) (map Inr bs)"
    using assms by simp
  then show ?thesis
    by (simp add: comp_def)
qed

lemma encoded_member:
  assumes "map M ts = map Inr bs" and "t \<in> set ts"
  shows "\<exists>b. M t = Inr b"
proof -
  from assms have "M t \<in> set (map Inr bs)"
    by (metis image_eqI set_map)
  then show ?thesis by auto
qed

lemma marshal_loop_total:
  assumes "\<forall>t\<in>set ts. \<exists>b. M t = Inr b"
  shows "marshal_loop M ts = Inr (map (\<lambda>t. case M t of Inr b \<Rightarrow> b) ts)"
  using assms by (induction ts) auto

lemma marshal_loop_perm:
  assumes perm: "mset ts2 = mset ts1" and enc: "marshal_loop M ts1 = Inr bs1"
  obtains bs2 where "marshal_loop M ts2 = Inr bs2" and "mset bs2 = mset bs1"
proof -
  let ?e = "\<lambda>t. case M t of Inr b \<Rightarrow> b"
  have m1: "map M ts1 = map Inr bs1"
    using enc by (simp add: marshal_loop_Inr_iff)
  then have bs1: "bs1 = map ?e ts1"
    by (rule encodings_eq)
  have "set ts2 = set ts1"
    using perm by (rule mset_eq_setD)
  then have "marshal_loop M ts2 = Inr (map ?e ts2)"
    using encoded_member [OF m1] by (intro marshal_loop_total) simp
  moreover have "mset (map ?e ts2) = mset bs1"
    by (simp add: bs1 perm)
  ultimately show thesis
    by (rule that)
qed

subsection \<open>Decoding what was encoded\<close>

lemma decoded_lossless:
  assumes enc: "map M ts = map Inr bs"
    and perm: "mset bs' = mset bs"
    and dec: "map U bs' = map (\<lambda>t. Inr (ClientTransactionMsg t)) out"
    and lossless: "\<forall>t\<in>set ts. \<forall>b. M t = Inr b \<longrightarrow> U b = Inr (ClientTransactionMsg t)"
  shows "mset out = mset ts"
proof -
  define d where "d = (\<lambda>b. case U b of Inr (ClientTransactionMsg t) \<Rightarrow> t)"
  define e where "e = (\<lambda>t. case M t of Inr b \<Rightarrow> b)"
  have "map (\<lambda>r. case r of Inr (ClientTransactionMsg t) \<Rightarrow> t) (map U bs')
      = map (\<lambda>r. case r of Inr (ClientTransactionMsg t) \<Rightarrow> t) (map (\<lambda>t. Inr (ClientTransactionMsg t)) out)"
    using dec by simp
  then have out: "out = map d bs'"
    by (simp add: d_def comp_def)
  have bs: "bs = map e ts"
    unfolding e_def using enc by (rule encodings_eq)
  have Mt: "M t = Inr (e t)" if "t \<in> set ts" for t
    using encoded_member [OF enc that] by (auto simp add: e_def)
  have de: "d (e t) = t" if "t \<in> set ts" for t
    using lossless that Mt [OF that] by (simp add: d_def)
  have "mset out = image_mset d (mset bs')"
    by (simp add: out)
  also have "\<dots> = image_mset d (image_mset e (mset ts))"
    by (simp add: perm bs)
  also have "\<dots> = image_mset (\<lambda>t. d (e t)) (mset ts)"
    by (simp add: image_mset.compositionality comp_def)
  also have "\<dots> = image_mset (\<lambda>t. t) (mset ts)"
    by (rule image_mset_cong) (simp add: de)
  also have "\<dots> = mset ts"
    by simp
  finally show ?thesis .
qed

lemma sortTransactions_mset:
  assumes lossless: "\<forall>t\<in>set ts. \<forall>b. M t = Inr b \<longrightarrow> U b = Inr (ClientTransactionMsg t)"
    and ok: "sortTransactions sha M U ts = (out, None)"
  shows "mset out = mset ts"
proof -
  from ok obtain bs where bs: "marshal_loop M ts = Inr bs"
    and out: "unmarshal_loop U (sortWithSalt sha bs (xorTransactions sha bs)) = Inr out"
    by (rule sortTransactions_None)
  show ?thesis
    using bs [unfolded marshal_loop_Inr_iff] mset_sortWithSalt out [unfolded unmarshal_loop_Inr_iff] lossless
    by (rule decoded_lossless)
qed

lemma sortTransactions_perm:
  assumes perm: "mset ts2 = mset ts1"
    and enc: "marshal_loop M ts1 = Inr bs1"
    and nocoll: "inj_on (\<lambda>b. sha (xorTransactions sha bs1 @ b)) (set bs1)"
    and dec: "unmarshal_loop U (sortWithSalt sha bs1 (xorTransactions sha bs1)) = Inr out"
  shows "sortTransactions sha M U ts2 = (out, None)"
proof -
  from perm enc obtain bs2 where bs2: "marshal_loop M ts2 = Inr bs2" and m: "mset bs2 = mset bs1"
    by (rule marshal_loop_perm)
  have salt: "xorTransactions sha bs2 = xorTransactions sha bs1"
    using m by (rule xorTransactions_perm)
  have "sortWithSalt sha bs2 (xorTransactions sha bs1) = sortWithSalt sha bs1 (xorTransactions sha bs1)"
    using m nocoll by (rule sortWithSalt_unique)
  with dec salt have "unmarshal_loop U (sortWithSalt sha bs2 (xorTransactions sha bs2)) = Inr out"
    by simp
  with bs2 show ?thesis
    by (rule sortTransactions_success)
qed

section \<open>Facts about the concrete values\<close>

lemma slice32_checksum_sha: "slice32 (checksum_sha x) = replicate 31 0 @ [sum_list x]"
  by (simp add: checksum_sha_def)

lemma count_Marshal_batch: "n < 256 \<Longrightarrow> count_Marshal (batch n) = Inr [of_nat n]"
  by (simp add: count_Marshal_def batch_def)

lemma count_Marshal_batch_256: "count_Marshal (batch 256) = Inl (Error ''batch too long'')"
  by (simp add: count_Marshal_def batch_def)

lemma xor_last:
  "map2 (XOR) (replicate n (0 :: byte) @ [a]) (replicate n 0 @ [b]) = replicate n 0 @ [a XOR b]"
  by (induction n) simp_all

lemma fold_xor_checksum:
  "fold (\<lambda>t result. map2 (XOR) result (slice32 (checksum_sha t))) ts (replicate 31 0 @ [a])
     = replicate 31 0 @ [fold (\<lambda>t r. r XOR sum_list t) ts a]"
  by (induction ts arbitrary: a) (simp_all add: slice32_checksum_sha xor_last)

lemma xorTransactions_checksum:
  "xorTransactions checksum_sha ts = replicate 31 0 @ [fold (\<lambda>t r. r XOR sum_list t) ts 0]"
proof -
  have "replicate 32 (0 :: byte) = replicate 31 0 @ [0]"
    using replicate_add [of 31 1 "0 :: byte"] by simp
  then show ?thesis
    by (simp only: xorTransactions_fold fold_xor_checksum)
qed

lemma less_last: "replicate n (0 :: byte) @ [a] < replicate n 0 @ [b] \<longleftrightarrow> a < b"
  by (induction n) simp_all

lemma salted_less_checksum:
  "salted_less checksum_sha salt a b \<longleftrightarrow> sum_list salt + sum_list a < sum_list salt + sum_list b"
  by (simp add: salted_less_key slice32_checksum_sha less_last)

lemma sample_encodings:
  "marshal_loop count_Marshal [batch 2, batch 0, batch 1] = Inr [[2], [0], [1]]"
  by (simp add: count_Marshal_batch)

lemma sample_salt: "xorTransactions checksum_sha [[2], [0], [1]] = replicate 31 0 @ [3]"
  by (simp add: xorTransactions_checksum)

lemma sample_sort:
  "sortWithSalt checksum_sha [[2], [0], [1]] (replicate 31 0 @ [3]) = [[0], [1], [2]]"
  by (simp add: sortWithSalt_def sort_Slice_def salted_less_checksum sum_list_replicate)

lemma sample_decodings:
  "unmarshal_loop count_Unmarshal [[0], [1], [2]] = Inr [batch 0, batch 1, batch 2]"
  by (simp add: count_Unmarshal_def)

lemma sample_order:
  "sortTransactions checksum_sha count_Marshal count_Unmarshal [batch 2, batch 0, batch 1]
     = ([batch 0, batch 1, batch 2], None)"
  using sample_encodings
  by (rule sortTransactions_success) (simp only: sample_salt sample_sort sample_decodings)

lemma sample_no_collision:
  "inj_on (\<lambda>b. checksum_sha (salt @ b)) (set [[2], [0], [1]])"
proof -
  have "checksum_sha (salt @ a) = checksum_sha (salt @ b) \<longleftrightarrow> sum_list a = sum_list b" for a b
    using slice32_inject [of "checksum_sha (salt @ a)" "checksum_sha (salt @ b)"]
    by (simp add: slice32_checksum_sha)
  then show ?thesis
    by (simp add: inj_on_def)
qed

lemma sample_lossless:
  "\<forall>t\<in>set [batch 2, batch 0, batch 1]. \<forall>b.
     count_Marshal t = Inr b \<longrightarrow> count_Unmarshal b = Inr (ClientTransactionMsg t)"
  by (auto simp add: count_Marshal_batch count_Unmarshal_def)

section \<open>The claims\<close>

subsection \<open>Digests and identifiers\<close>

text \<open>
  Claim C7, as amended. For every instruction, \<open>Hash\<close> is the SHA-256 digest of, in this
  order: the DarcID bytes, the 32 bytes of the InstanceID, the 32 bytes of the nonce,
  the index and the length as four little-endian bytes each, and then the part of the
  first payload that is set, in the order Spawn, Invoke, Delete: the tag byte 0, the
  contract kind and the arguments of Spawn; or the tag byte 1 and the arguments of
  Invoke; or the tag byte 2 for Delete; an argument is its name followed by its value,
  in list order. When no payload is set nothing follows the length, not even a tag.
  The command of an Invoke is not part of the digest.
\<close>

theorem Hash_layout:
  "Hash sha instr =
     slice32 (sha (DarcID (Instruction.ObjectID instr) @ slice32 (InstanceID (Instruction.ObjectID instr)) @
       slice32 (Nonce instr) @ PutUint32 (ucast (Index instr)) @ PutUint32 (ucast (Length instr)) @
       (case Spawn instr of
          Some s \<Rightarrow> [0] @ bytes_of_string (Spawn.ContractID s) @
                     concat (map (\<lambda>a. bytes_of_string (Name a) @ Argument.Value a) (Spawn.Args s))
        | None \<Rightarrow>
           (case Invoke instr of
              Some v \<Rightarrow> [1] @ concat (map (\<lambda>a. bytes_of_string (Name a) @ Argument.Value a) (Invoke.Args v))
            | None \<Rightarrow> (case Delete instr of Some d \<Rightarrow> [2] | None \<Rightarrow> []))))) \<and>
   length (slice32 (InstanceID (Instruction.ObjectID instr))) = 32 \<and>
   length (slice32 (Nonce instr)) = 32 \<and>
   length (PutUint32 w) = 4 \<and>
   unat (PutUint32 w ! 0) + 256 * unat (PutUint32 w ! 1) + 65536 * unat (PutUint32 w ! 2)
     + 16777216 * unat (PutUint32 w ! 3) = unat w \<and>
   Hash sha (instr\<lparr>Spawn := None, Invoke := Some \<lparr>Command = c, Args = as\<rparr>\<rparr>)
     = Hash sha (instr\<lparr>Spawn := None, Invoke := Some \<lparr>Command = c', Args = as\<rparr>\<rparr>)"
proof -
  have "Hash sha (instr\<lparr>Spawn := None, Invoke := Some \<lparr>Command = c, Args = as\<rparr>\<rparr>)
     = Hash sha (instr\<lparr>Spawn := None, Invoke := Some \<lparr>Command = c', Args = as\<rparr>\<rparr>)"
    by (simp add: Hash_def Hash_written_eq)
  moreover have "Hash sha instr = slice32 (sha (Hash_written instr))"
    by (simp add: Hash_def hash_Sum_def)
  ultimately show ?thesis
    using PutUint32_little_endian [of w] by (simp add: Hash_written_eq)
qed

text \<open>
  Claim C7 as stated fails on the zero instruction, which has no payload: the 72 bytes
  hashed are the five header fields, and no tag byte follows them.
\<close>

theorem Hash_no_tag_counterexample:
  "length (Hash_written zero_instr) = 72 \<and>
   \<not> (\<exists>tag rest. Hash_written zero_instr =
          DarcID (Instruction.ObjectID zero_instr) @ slice32 (InstanceID (Instruction.ObjectID zero_instr)) @
          slice32 (Nonce zero_instr) @ PutUint32 (ucast (Index zero_instr)) @
          PutUint32 (ucast (Length zero_instr)) @ [tag] @ rest)"
proof -
  have w: "Hash_written zero_instr = replicate 32 0 @ replicate 32 0 @ PutUint32 0 @ PutUint32 0"
    by (simp add: Hash_written_eq zero_instr_def)
  have 1: "length (Hash_written zero_instr) = 72"
    unfolding w by (simp add: PutUint32_def)
  have "length (DarcID (Instruction.ObjectID zero_instr) @ slice32 (InstanceID (Instruction.ObjectID zero_instr)) @
          slice32 (Nonce zero_instr) @ PutUint32 (ucast (Index zero_instr)) @
          PutUint32 (ucast (Length zero_instr)) @ [tag] @ rest) > 72" for tag rest
    by (simp add: zero_instr_def PutUint32_def)
  with 1 show ?thesis
    by (metis less_irrefl)
qed

text \<open>
  Claim C9. For every instruction and purpose string, \<open>DeriveID\<close> returns an ObjectID
  whose DarcID is the instruction's own and whose InstanceID is the SHA-256 digest of
  the purpose string, then \<open>Hash\<close> of the instruction, then the raw signature bytes of
  the signatures in list order; the signers do not occur.
\<close>

theorem DeriveID_digest:
  "DeriveID sha instr what =
     \<lparr>DarcID = DarcID (Instruction.ObjectID instr),
      InstanceID = sha (bytes_of_string what @ Hash sha instr @ concat (map Signature (Signatures instr)))\<rparr>"
  unfolding DeriveID_def Let_def write_sigs_concat
  by (simp add: hash_Write_def sha256_New_def hash_Sum_def)

text \<open>
  Claim C10. \<open>StateChanges.Hash\<close> has no error result and always returns 32 bytes; it
  logs one line per entry whose encoding fails and goes on. Where the encoder returns a
  \<open>nil\<close> buffer with every error, as \<open>protobuf.Encode\<close> does, nothing is written for
  such an entry: the digest is the digest of the encodings of the other entries, the
  same as if the failing entries were not in the list.
\<close>

theorem StateChanges_Hash_skips_failures:
  "length (StateChanges_Hash sha Encode scs) = 32 \<and>
   snd (StateChanges_Hash_loop Encode scs (sha256_New, 0))
     = length (filter (\<lambda>sc. snd (Encode sc) \<noteq> None) scs) \<and>
   ((\<forall>sc. snd (Encode sc) \<noteq> None \<longrightarrow> fst (Encode sc) = []) \<longrightarrow>
      StateChanges_Hash sha Encode scs
        = slice32 (sha (concat (map (\<lambda>sc. fst (Encode sc)) (filter (\<lambda>sc. snd (Encode sc) = None) scs)))) \<and>
      StateChanges_Hash sha Encode scs
        = StateChanges_Hash sha Encode (filter (\<lambda>sc. snd (Encode sc) = None) scs))"
proof -
  have 1: "length (StateChanges_Hash sha Encode scs) = 32"
    by (simp add: StateChanges_Hash_def hash_Sum_def)
  have 2: "StateChanges_Hash sha Encode xs = slice32 (sha (concat (map (\<lambda>sc. fst (Encode sc)) xs)))" for xs
    by (simp add: StateChanges_Hash_def hash_Sum_def Hash_loop_fst sha256_New_def)
  have 3: "concat (map (\<lambda>sc. fst (Encode sc)) (filter (\<lambda>sc. snd (Encode sc) = None) xs))
             = concat (map (\<lambda>sc. fst (Encode sc)) xs)"
    if "\<forall>sc. snd (Encode sc) \<noteq> None \<longrightarrow> fst (Encode sc) = []" for xs
    using that by (intro concat_skip_empty) simp
  show ?thesis
    using 1 3 by (simp add: 2 Hash_loop_snd)
qed

theorem StateChanges_Hash_skips_failures_witness:
  "length (StateChanges_Hash checksum_sha value_Encode [create_change [1], create_change [], create_change [2]]) = 32 \<and>
   snd (StateChanges_Hash_loop value_Encode [create_change [1], create_change [], create_change [2]] (sha256_New, 0)) = 1 \<and>
   StateChanges_Hash checksum_sha value_Encode [create_change [1], create_change [], create_change [2]]
     = slice32 (checksum_sha [1, 2]) \<and>
   StateChanges_Hash checksum_sha value_Encode [create_change [1], create_change [], create_change [2]]
     = StateChanges_Hash checksum_sha value_Encode [create_change [1], create_change [2]]"
proof -
  have nil: "\<forall>sc. snd (value_Encode sc) \<noteq> None \<longrightarrow> fst (value_Encode sc) = []"
    by (simp add: value_Encode_def)
  have v: "StateChange.Value (create_change x) = x" for x
    by (simp add: create_change_def StateChange.defs)
  have ok: "filter (\<lambda>sc. snd (value_Encode sc) = None) [create_change [1], create_change [], create_change [2]]
              = [create_change [1], create_change [2]]"
    by (simp add: value_Encode_def v)
  have failed: "filter (\<lambda>sc. snd (value_Encode sc) \<noteq> None) [create_change [1], create_change [], create_change [2]]
              = [create_change []]"
    by (simp add: value_Encode_def v)
  have written: "concat (map (\<lambda>sc. fst (value_Encode sc)) [create_change [1], create_change [2]]) = [1, 2]"
    by (simp add: value_Encode_def v)
  have one: "length [create_change []] = 1"
    by simp
  show ?thesis
    using nil StateChanges_Hash_skips_failures
      [of checksum_sha value_Encode "[create_change [1], create_change [], create_change [2]]",
        unfolded ok failed written one]
    by blast
qed

subsection \<open>Classification and the authorization request\<close>

text \<open>
  Claim C2, as amended. \<open>GetType\<close> classifies an instruction as invalid exactly when
  zero or more than one of the three payloads are set. \<open>Action\<close> returns the label
  \<open>invalid\<close> exactly when no payload is set; with more than one set it returns the
  label of the first one in the order Spawn, Invoke, Delete.
\<close>

theorem Action_GetType_invalid:
  "(GetType instr = InvalidInstrType \<longleftrightarrow> payloads_set instr \<noteq> 1) \<and>
   (Action instr = ''invalid'' \<longleftrightarrow> payloads_set instr = 0) \<and>
   Action (instr\<lparr>Spawn := Some s\<rparr>) = ''spawn:'' @ Spawn.ContractID s \<and>
   Action (instr\<lparr>Spawn := None, Invoke := Some v\<rparr>) = ''invoke:'' @ Command v \<and>
   Action (instr\<lparr>Spawn := None, Invoke := None, Delete := Some d\<rparr>) = ''Delete''"
  by (auto simp add: GetType_def Action_def payloads_set_def split: option.splits)

text \<open>
  Claim C2 as stated fails on an instruction with both Spawn and Invoke set: its type
  is invalid, but its label is that of the Spawn.
\<close>

theorem Action_two_payloads_counterexample:
  "payloads_set spawn_invoke_instr = 2 \<and>
   GetType spawn_invoke_instr = InvalidInstrType \<and>
   Action spawn_invoke_instr = ''spawn:coin'' \<and>
   \<not> (Action spawn_invoke_instr = ''invalid'' \<and> GetType spawn_invoke_instr = InvalidInstrType)"
  by (simp add: spawn_invoke_instr_def zero_instr_def payloads_set_def Action_def GetType_def)

text \<open>
  Claim C8. For every instruction whose action label is not \<open>_evolve\<close>,
  \<open>ToDarcRequest\<close> succeeds, and the request carries the DarcID as base identifier,
  the label \<open>Action\<close>, the digest \<open>Hash\<close> as message, and the signers and the raw
  signatures of the instruction's signature list, in its order.
\<close>

theorem ToDarcRequest_plain:
  assumes "Action instr \<noteq> ''_evolve''"
  shows "ToDarcRequest sha NewFromProtobuf GetID instr =
     Ok \<lparr>BaseID = DarcID (Instruction.ObjectID instr), ReqAction = Action instr, Msg = Hash sha instr,
         Identities = map Signer (Signatures instr), ReqSignatures = map Signature (Signatures instr)\<rparr>"
  using assms by (simp add: ToDarcRequest_def Let_def InitRequest_def)

theorem ToDarcRequest_plain_witness:
  "Action delete_instr = ''Delete'' \<and>
   Action delete_instr \<noteq> ''_evolve'' \<and>
   ToDarcRequest checksum_sha (\<lambda>darcBuf. Inl (Error ''not a darc'')) (\<lambda>d :: unit. []) delete_instr =
     Ok \<lparr>BaseID = [], ReqAction = ''Delete'', Msg = Hash checksum_sha delete_instr,
         Identities = [''alice'', ''bob''], ReqSignatures = [[1], [2]]\<rparr>"
proof -
  have a: "Action delete_instr = ''Delete''"
    by (simp add: Action_def delete_instr_def zero_instr_def)
  then have h: "Action delete_instr \<noteq> ''_evolve''"
    by simp
  show ?thesis
    using h ToDarcRequest_plain [OF h, of checksum_sha "\<lambda>darcBuf. Inl (Error ''not a darc'')" "\<lambda>d :: unit. []"]
    by (simp add: a) (simp add: delete_instr_def zero_instr_def)
qed

text \<open>
  Claim C1. The special case of \<open>ToDarcRequest\<close> for the evolution of a policy document
  compares the label with \<open>_evolve\<close>, which \<open>Action\<close> never returns. An Invoke of the
  command \<open>evolve\<close> that carries no \<open>darc\<close> argument, with a parser that accepts
  nothing, still yields a request, and its message is \<open>Hash\<close> of the instruction.
\<close>

theorem ToDarcRequest_evolve_unreachable:
  "Action instr \<noteq> ''_evolve'' \<and>
   Action evolve_instr = ''invoke:evolve'' \<and>
   Search (Invoke.Args (the (Invoke evolve_instr))) ''darc'' = [] \<and>
   ToDarcRequest sha (\<lambda>darcBuf. Inl (Error ''not a darc'')) GetID evolve_instr =
     Ok (InitRequest [] ''invoke:evolve'' (Hash sha evolve_instr) [] [])"
  using Action_not_evolve [of instr]
  by (simp add: ToDarcRequest_def Action_def evolve_instr_def zero_instr_def)

subsection \<open>The object/state resolver\<close>

text \<open>
  What \<open>GetContractState\<close> returns: the contract kind of a Spawn, with no state and
  without a look at the store; otherwise the error of the store or of the record, or
  the contract kind and the state of a record of two byte fields.
\<close>

lemma GetContractState_Spawn:
  "Spawn instr = Some s \<Longrightarrow> GetContractState instr coll = Ok (Spawn.ContractID s, [])"
  by (simp add: GetContractState_def)

lemma GetContractState_store_error:
  "Spawn instr = None \<Longrightarrow> coll (Slice (Instruction.ObjectID instr)) = Inl err \<Longrightarrow>
   GetContractState instr coll = Err err"
  by (simp add: GetContractState_def)

lemma GetContractState_record_error:
  "Spawn instr = None \<Longrightarrow> coll (Slice (Instruction.ObjectID instr)) = Inr (Inl err) \<Longrightarrow>
   GetContractState instr coll = Err err"
  by (simp add: GetContractState_def)

lemma GetContractState_record:
  "Spawn instr = None \<Longrightarrow>
   coll (Slice (Instruction.ObjectID instr)) = Inr (Inr (IBytes st # IBytes c # others)) \<Longrightarrow>
   GetContractState instr coll = Ok (string_of_bytes c, st)"
  by (simp add: GetContractState_def)

text \<open>
  Claim C3. \<open>GetContractState\<close> on an instruction that is not a Spawn panics when the
  store's record decodes without error to fewer than two fields, or to a field that is
  not a byte slice; it does not return an error there.
\<close>

theorem GetContractState_panics:
  "Spawn delete_instr = None \<and>
   GetContractState delete_instr (\<lambda>key. Inr (Inr [IBytes [1, 2]])) = Panic IndexOutOfRange \<and>
   GetContractState delete_instr (\<lambda>key. Inr (Inr [IBytes [1, 2], INotBytes])) = Panic TypeAssertion"
  by (simp add: GetContractState_def delete_instr_def zero_instr_def)

subsection \<open>The ordering\<close>

text \<open>
  Claim C4. If the encoding of some client transaction of the slice fails, or all
  encode and the decoding of some sorted encoding fails (an error, or a message that is
  not a client transaction), then \<open>sortTransactions\<close> returns an error and the slice
  is what it was before the call.
\<close>

theorem sortTransactions_all_or_nothing:
  assumes "(\<exists>t\<in>set ts. \<exists>e. Marshal t = Inl e) \<or>
     (\<exists>bs. marshal_loop Marshal ts = Inr bs \<and>
        (\<exists>b\<in>set (sortWithSalt sha bs (xorTransactions sha bs)).
           \<forall>t. Unmarshal b \<noteq> Inr (ClientTransactionMsg t)))"
  shows "\<exists>err. sortTransactions sha Marshal Unmarshal ts = (ts, Some err)"
  using assms
proof
  assume "\<exists>t\<in>set ts. \<exists>e. Marshal t = Inl e"
  then obtain e' where "marshal_loop Marshal ts = Inl e'"
    using marshal_loop_Inl by blast
  then show ?thesis
    by (simp add: sortTransactions_def)
next
  assume "\<exists>bs. marshal_loop Marshal ts = Inr bs \<and>
        (\<exists>b\<in>set (sortWithSalt sha bs (xorTransactions sha bs)).
           \<forall>t. Unmarshal b \<noteq> Inr (ClientTransactionMsg t))"
  then obtain bs b where bs: "marshal_loop Marshal ts = Inr bs"
    and b: "b \<in> set (sortWithSalt sha bs (xorTransactions sha bs))"
       "\<forall>t. Unmarshal b \<noteq> Inr (ClientTransactionMsg t)"
    by blast
  from b obtain e where "unmarshal_loop Unmarshal (sortWithSalt sha bs (xorTransactions sha bs)) = Inl e"
    using unmarshal_loop_Inl by blast
  with bs show ?thesis
    by (simp add: sortTransactions_def)
qed

text \<open>
  Two inputs for C4: a slice whose second element does not encode, and a slice that
  encodes but decodes to messages of another type.
\<close>

theorem sortTransactions_all_or_nothing_witness:
  "(\<exists>err. sortTransactions checksum_sha count_Marshal count_Unmarshal [batch 1, batch 256]
            = ([batch 1, batch 256], Some err)) \<and>
   (\<exists>err. sortTransactions checksum_sha count_Marshal (\<lambda>b. Inr OtherMsg) [batch 2, batch 0, batch 1]
            = ([batch 2, batch 0, batch 1], Some err))"
proof -
  have 1: "(\<exists>t\<in>set [batch 1, batch 256]. \<exists>e. count_Marshal t = Inl e) \<or>
     (\<exists>bs. marshal_loop count_Marshal [batch 1, batch 256] = Inr bs \<and>
        (\<exists>b\<in>set (sortWithSalt checksum_sha bs (xorTransactions checksum_sha bs)).
           \<forall>t. count_Unmarshal b \<noteq> Inr (ClientTransactionMsg t)))"
    by (simp add: count_Marshal_batch_256)
  have "\<exists>b\<in>set (sortWithSalt checksum_sha [[2], [0], [1]] (xorTransactions checksum_sha [[2], [0], [1]])).
          \<forall>t. (Inr OtherMsg :: error + string message) \<noteq> Inr (ClientTransactionMsg t)"
    by (auto simp add: sample_salt sample_sort)
  with sample_encodings
  have 2: "(\<exists>t\<in>set [batch 2, batch 0, batch 1]. \<exists>e. count_Marshal t = Inl e) \<or>
     (\<exists>bs. marshal_loop count_Marshal [batch 2, batch 0, batch 1] = Inr bs \<and>
        (\<exists>b\<in>set (sortWithSalt checksum_sha bs (xorTransactions checksum_sha bs)).
           \<forall>t. (\<lambda>b. Inr OtherMsg :: error + string message) b \<noteq> Inr (ClientTransactionMsg t)))"
    by blast
  show ?thesis
    using sortTransactions_all_or_nothing [OF 1] sortTransactions_all_or_nothing [OF 2]
    by blast
qed

text \<open>
  Claim C5. Where the encoding is lossless on the client transactions of the slice
  (decoding the encoding of one gives it back), a successful \<open>sortTransactions\<close>
  leaves a permutation of the slice: the multiset of its elements is unchanged.
\<close>

theorem sortTransactions_permutation:
  assumes "\<forall>t\<in>set ts. \<forall>b. Marshal t = Inr b \<longrightarrow> Unmarshal b = Inr (ClientTransactionMsg t)"
    and "sortTransactions sha Marshal Unmarshal ts = (out, None)"
  shows "mset out = mset ts"
  using assms by (rule sortTransactions_mset)

theorem sortTransactions_permutation_witness:
  "sortTransactions checksum_sha count_Marshal count_Unmarshal [batch 2, batch 0, batch 1]
     = ([batch 0, batch 1, batch 2], None) \<and>
   mset [batch 0, batch 1, batch 2] = mset [batch 2, batch 0, batch 1]"
  using sample_order sortTransactions_permutation [OF sample_lossless sample_order]
  by blast

text \<open>
  Claim C6. Let the slice \<open>ts1\<close> have the encodings \<open>bs1\<close>, let \<open>sortTransactions\<close>
  succeed on it with the output \<open>out1\<close>, and let no two different encodings have the
  same salted digest. Then on every permutation \<open>ts2\<close> of \<open>ts1\<close> the function succeeds
  with the same output, and the salt of \<open>ts2\<close>, the XOR of the digests of its
  encodings, is the salt of \<open>ts1\<close>. The output is the decoding of the encodings
  sorted in ascending order (\<open>bytes.Compare\<close>) of the SHA-256 digest of salt followed by
  encoding. Where the encoding is lossless on \<open>ts1\<close>, a second run on the output
  succeeds and returns the output.
\<close>

theorem Order_independent_of_input_order:
  assumes perm: "mset ts2 = mset ts1"
    and enc: "marshal_loop Marshal ts1 = Inr bs1"
    and ok: "sortTransactions sha Marshal Unmarshal ts1 = (out1, None)"
    and nocoll: "inj_on (\<lambda>b. sha (xorTransactions sha bs1 @ b)) (set bs1)"
    and lossless: "\<forall>t\<in>set ts1. \<forall>b. Marshal t = Inr b \<longrightarrow> Unmarshal b = Inr (ClientTransactionMsg t)"
  shows "sortTransactions sha Marshal Unmarshal ts2 = (out1, None) \<and>
    (\<exists>bs2. marshal_loop Marshal ts2 = Inr bs2 \<and> xorTransactions sha bs2 = xorTransactions sha bs1) \<and>
    xorTransactions sha bs1 = fold (\<lambda>t result. map2 (XOR) result (slice32 (sha t))) bs1 (replicate 32 0) \<and>
    unmarshal_loop Unmarshal (sortWithSalt sha bs1 (xorTransactions sha bs1)) = Inr out1 \<and>
    mset (sortWithSalt sha bs1 (xorTransactions sha bs1)) = mset bs1 \<and>
    sorted_wrt (\<lambda>a b. bytes_Compare (slice32 (sha (xorTransactions sha bs1 @ a)))
                                     (slice32 (sha (xorTransactions sha bs1 @ b))) \<le> 0)
      (sortWithSalt sha bs1 (xorTransactions sha bs1)) \<and>
    sortTransactions sha Marshal Unmarshal out1 = (out1, None)"
proof -
  from ok obtain bs where "marshal_loop Marshal ts1 = Inr bs"
    and "unmarshal_loop Unmarshal (sortWithSalt sha bs (xorTransactions sha bs)) = Inr out1"
    by (rule sortTransactions_None)
  with enc have dec: "unmarshal_loop Unmarshal (sortWithSalt sha bs1 (xorTransactions sha bs1)) = Inr out1"
    by simp
  have same: "sortTransactions sha Marshal Unmarshal ts2 = (out1, None)"
    using perm enc nocoll dec by (rule sortTransactions_perm)
  from perm enc obtain bs2 where "marshal_loop Marshal ts2 = Inr bs2" and "mset bs2 = mset bs1"
    by (rule marshal_loop_perm)
  then have salt: "\<exists>bs2. marshal_loop Marshal ts2 = Inr bs2 \<and> xorTransactions sha bs2 = xorTransactions sha bs1"
    using xorTransactions_perm by blast
  have "mset out1 = mset ts1"
    using lossless ok by (rule sortTransactions_mset)
  then have again: "sortTransactions sha Marshal Unmarshal out1 = (out1, None)"
    using enc nocoll dec by (rule sortTransactions_perm)
  show ?thesis
    using same salt dec sorted_sortWithSalt again mset_sortWithSalt xorTransactions_fold by blast
qed

theorem Order_independent_of_input_order_witness:
  "mset [batch 1, batch 2, batch 0] = mset [batch 2, batch 0, batch 1] \<and>
   sortTransactions checksum_sha count_Marshal count_Unmarshal [batch 2, batch 0, batch 1]
     = ([batch 0, batch 1, batch 2], None) \<and>
   sortTransactions checksum_sha count_Marshal count_Unmarshal [batch 1, batch 2, batch 0]
     = ([batch 0, batch 1, batch 2], None) \<and>
   sortTransactions checksum_sha count_Marshal count_Unmarshal [batch 0, batch 1, batch 2]
     = ([batch 0, batch 1, batch 2], None)"
proof -
  have perm: "mset [batch 1, batch 2, batch 0] = mset [batch 2, batch 0, batch 1]"
    by simp
  show ?thesis
    using perm sample_order
      Order_independent_of_input_order [OF perm sample_encodings sample_order sample_no_collision sample_lossless]
    by blast
qed

end
